theory Spec2Isabelle
  imports Complex_Main
begin

section \<open>The notebooks' data\<close>

text \<open>
  A binary assignment is the list of integers 0 and 1 that \<^verbatim>\<open>bitfield\<close> builds, one entry
  per vertex or number. A graph is its weight matrix, a list of rows. The value the
  brute-force loop tracks starts as \<^verbatim>\<open>np.inf\<close> and becomes an objective value at the first
  candidate evaluated.
\<close>

type_synonym assignment = "int list"

type_synonym 'w matrix = "'w list list"

datatype 'v tracked = Infinity | Value 'v

text \<open>\<^verbatim>\<open>cur_v < minimal_v\<close>: every objective value is below \<^verbatim>\<open>np.inf\<close>.\<close>

fun below :: "'v::linorder \<Rightarrow> 'v tracked \<Rightarrow> bool" where
  "below v Infinity = True"
| "below v (Value m) = (v < m)"

section \<open>The library calls of \<^verbatim>\<open>bitfield\<close>\<close>

text \<open>
  \<^verbatim>\<open>bin(num)[2:]\<close> for a natural number: its binary digits, most significant first,
  \<^verbatim>\<open>'0'\<close> for 0.
\<close>

definition digit_char :: "nat \<Rightarrow> char" where
  "digit_char d = (if d = 0 then CHR ''0'' else CHR ''1'')"

fun bin_digits :: "nat \<Rightarrow> string" where
  "bin_digits n =
     (if n < 2 then [digit_char n] else bin_digits (n div 2) @ [digit_char (n mod 2)])"

declare bin_digits.simps [simp del]

text \<open>\<^verbatim>\<open>str.zfill\<close> on a string of digits: zeros on the left up to the width.\<close>

definition zfill :: "string \<Rightarrow> nat \<Rightarrow> string" where
  "zfill s width = replicate (width - length s) (CHR ''0'') @ s"

text \<open>
  \<^verbatim>\<open>np.binary_repr(num, width)\<close> for \<open>num \<ge> 0\<close>:
  \<^verbatim>\<open>
  if num == 0:
      return '0' * (width or 1)
  elif num > 0:
      binary = bin(num)[2:]
      binwidth = len(binary)
      outwidth = (binwidth if width is None else max(binwidth, width))
      return binary.zfill(outwidth)
  \<close>
  The loop only calls it with \<open>0 \<le> num\<close>, so the two's complement branch for negative
  numbers is not part of the model.
\<close>

definition binary_repr :: "nat \<Rightarrow> nat \<Rightarrow> string" where
  "binary_repr num width =
     (if num = 0 then replicate (if width = 0 then 1 else width) (CHR ''0'')
      else let binary = bin_digits num;
               binwidth = length binary;
               outwidth = max binwidth width
           in zfill binary outwidth)"

text \<open>
  \<^verbatim>\<open>int(digit)\<close> on the characters \<^verbatim>\<open>'0'\<close> and \<^verbatim>\<open>'1'\<close>, the only ones
  \<^verbatim>\<open>binary_repr\<close> produces (\<open>binary_repr_chars\<close>).
\<close>

definition int_of_digit :: "char \<Rightarrow> int" where
  "int_of_digit c = (if c = CHR ''1'' then 1 else 0)"

text \<open>\<^verbatim>\<open>np.count_nonzero(cur)\<close>.\<close>

definition count_nonzero :: "assignment \<Rightarrow> int" where
  "count_nonzero xs = int (length (filter (\<lambda>x. x \<noteq> 0) xs))"

section \<open>\<^verbatim>\<open>brute_force\<close> of graph_partition.ipynb\<close>

text \<open>
  \<^verbatim>\<open>
  def bitfield(n, L):
      result = np.binary_repr(n, L)
      return [int(digit) for digit in result]
  \<close>
\<close>

definition bitfield :: "nat \<Rightarrow> nat \<Rightarrow> assignment" where
  "bitfield n L = (let result = binary_repr n L in map int_of_digit result)"

text \<open>
  The state of the loop: the variable \<^verbatim>\<open>minimal_v\<close>, and the list of the arguments
  with which \<^verbatim>\<open>graph_partition.objective_value\<close> has been called so far, oldest first.
  The second component is not a variable of the notebook; it records the calls so that
  statements about what the objective is evaluated on can be made.
\<close>

record 'v loop_state =
  minimal_v :: "'v tracked"
  evaluated :: "assignment list"

text \<open>
  One iteration of
  \<^verbatim>\<open>
  for i in range(max):
      cur = bitfield(i, L)
      how_many_nonzero = np.count_nonzero(cur)
      if how_many_nonzero * 2 != L:  # not balanced
          continue
      cur_v = graph_partition.objective_value(np.array(cur), w)
      if cur_v < minimal_v:
          minimal_v = cur_v
  \<close>
  \<^verbatim>\<open>graph_partition.objective_value\<close> is a function of the imported library; the loop
  takes it as the parameter \<open>objective\<close>, and the global \<^verbatim>\<open>w\<close> as a parameter too.
\<close>

definition loop_body ::
  "(assignment \<Rightarrow> 'w \<Rightarrow> 'v::linorder) \<Rightarrow> 'w \<Rightarrow> nat \<Rightarrow> nat \<Rightarrow> 'v loop_state \<Rightarrow> 'v loop_state" where
  "loop_body objective w L i st =
     (let cur = bitfield i L;
          how_many_nonzero = count_nonzero cur
      in if how_many_nonzero * 2 \<noteq> int L then st
         else let cur_v = objective cur w
              in \<lparr> minimal_v = (if below cur_v (minimal_v st) then Value cur_v else minimal_v st),
                   evaluated = evaluated st @ [cur] \<rparr>)"

text \<open>The state after the first \<open>k\<close> iterations, from \<^verbatim>\<open>minimal_v = np.inf\<close>.\<close>

definition iterations ::
  "(assignment \<Rightarrow> 'w \<Rightarrow> 'v::linorder) \<Rightarrow> 'w \<Rightarrow> nat \<Rightarrow> nat \<Rightarrow> 'v loop_state" where
  "iterations objective w L k =
     fold (loop_body objective w L) [0..<k] \<lparr> minimal_v = Infinity, evaluated = [] \<rparr>"

text \<open>
  \<^verbatim>\<open>
  L = num_nodes
  max = 2**L
  minimal_v = np.inf
  for i in range(max): ...
  return minimal_v
  \<close>
\<close>

definition brute_force_run ::
  "(assignment \<Rightarrow> 'w \<Rightarrow> 'v::linorder) \<Rightarrow> nat \<Rightarrow> 'w \<Rightarrow> 'v loop_state" where
  "brute_force_run objective num_nodes w =
     (let L = num_nodes; max = 2 ^ L in iterations objective w L max)"

definition brute_force :: "(assignment \<Rightarrow> 'w \<Rightarrow> 'v::linorder) \<Rightarrow> nat \<Rightarrow> 'w \<Rightarrow> 'v tracked" where
  "brute_force objective num_nodes w = minimal_v (brute_force_run objective num_nodes w)"

text \<open>The candidates of the enumeration, in the order of the loop.\<close>

definition candidates :: "nat \<Rightarrow> assignment list" where
  "candidates L = map (\<lambda>i. bitfield i L) [0..<2 ^ L]"

text \<open>The test the loop applies before it calls the objective.\<close>

definition balanced :: "nat \<Rightarrow> assignment \<Rightarrow> bool" where
  "balanced L cur = (count_nonzero cur * 2 = int L)"

text \<open>A list of bits, and the number a list of bits writes in binary.\<close>

definition is_bits :: "assignment \<Rightarrow> bool" where
  "is_bits a = list_all (\<lambda>x. x = 0 \<or> x = 1) a"

definition bits_value :: "assignment \<Rightarrow> int" where
  "bits_value a = foldl (\<lambda>acc x. 2 * acc + x) 0 a"

text \<open>
  The minimum of the objective values of a list of assignments, as the loop tracks it:
  \<^verbatim>\<open>np.inf\<close> when the list is empty.
\<close>

definition least_value :: "'v::linorder list \<Rightarrow> 'v tracked" where
  "least_value vs = (if vs = [] then Infinity else Value (Min (set vs)))"

text \<open>
  The binary strings of length \<open>n\<close> in increasing order of the number they write: the
  strings that start with 0, then the strings that start with 1.
\<close>

fun binary_strings :: "nat \<Rightarrow> assignment list" where
  "binary_strings 0 = [[]]"
| "binary_strings (Suc n) =
     map (\<lambda>a. 0 # a) (binary_strings n) @ map (\<lambda>a. 1 # a) (binary_strings n)"

text \<open>The weight matrix that the first cell of graph_partition.ipynb prints.\<close>

definition w_example :: "real matrix" where
  "w_example = [[0, 4, 5, 3], [4, 0, -5, 7], [5, -5, 0, 0], [3, 7, 0, 0]]"

section \<open>The objective functions of the imported library\<close>

text \<open>
  The complement of an assignment, as partition.ipynb writes it: the vector \<open>y\<close> with
  \<^verbatim>\<open>y_j = 1 - x_j\<close> for all \<open>j\<close>.
\<close>

definition complement :: "assignment \<Rightarrow> assignment" where
  "complement x = map (\<lambda>xj. 1 - xj) x"

text \<open>\<^verbatim>\<open>np.outer(a, b)\<close>, and the elementwise product and the sum of two-dimensional arrays.\<close>

definition outer :: "int list \<Rightarrow> int list \<Rightarrow> int matrix" where
  "outer a b = map (\<lambda>ai. map (\<lambda>bj. ai * bj) b) a"

definition times_elementwise :: "int matrix \<Rightarrow> int matrix \<Rightarrow> int matrix" where
  "times_elementwise A B = map2 (\<lambda>ra rb. map2 (\<lambda>a b. a * b) ra rb) A B"

definition sum_all :: "int matrix \<Rightarrow> int" where
  "sum_all A = sum_list (map sum_list A)"

text \<open>
  Modelled from the spec: \<^verbatim>\<open>graph_partition.objective_value(x, w)\<close>, which the
  notebook imports from the optimisation library; its code is not among the sources.
  Section 4.1 of the specification gives the graph-partition objective as the sum, over
  the edges \<open>(i, j)\<close> with \<open>assignment[i] \<noteq> assignment[j]\<close>, of \<open>w[i][j]\<close>. The notebook
  says of the function it calls that it "is defined as the number of crossing edges", and
  prints 3 for the example graph, which the sum of the weights does not give. So every
  crossing edge counts 1 whatever its weight, the way the library computes it:
  \<^verbatim>\<open>
  X = np.outer(x, (1 - x))
  w_01 = np.where(w != 0, 1, 0)
  return np.sum(w_01 * X)
  \<close>
  An entry \<open>w[i][j] \<noteq> 0\<close> counts when vertex \<open>i\<close> has bit 1 and vertex \<open>j\<close> has bit 0.
  \<open>x\<close> has one entry per vertex and \<open>w\<close> is square of that size in every call of the
  notebook; the model does not say what numpy does with other shapes.
\<close>

definition objective_value :: "assignment \<Rightarrow> 'w::zero matrix \<Rightarrow> int" where
  "objective_value x w =
     (let X = outer x (map (\<lambda>xj. 1 - xj) x);
          w_01 = map (map (\<lambda>wij. if wij \<noteq> 0 then 1 else 0)) w
      in sum_all (times_elementwise w_01 X))"

text \<open>
  The two readings of "crossing edges" in words: the pairs \<open>i < j\<close> of vertices in
  different partitions; the number of them with a non-zero weight (the notebook's note);
  and the sum of their weights (section 4.1 of the specification).
\<close>

definition crossing_pairs :: "assignment \<Rightarrow> (nat \<times> nat) list" where
  "crossing_pairs x =
     filter (\<lambda>(i, j). i < j \<and> x ! i \<noteq> x ! j)
       (List.product [0..<length x] [0..<length x])"

definition crossing_edges :: "assignment \<Rightarrow> 'w::zero matrix \<Rightarrow> int" where
  "crossing_edges x w = int (length (filter (\<lambda>(i, j). w ! i ! j \<noteq> 0) (crossing_pairs x)))"

definition crossing_weight :: "assignment \<Rightarrow> 'w::comm_monoid_add matrix \<Rightarrow> 'w" where
  "crossing_weight x w = sum_list (map (\<lambda>(i, j). w ! i ! j) (crossing_pairs x))"

text \<open>A square matrix of size \<open>n\<close> that equals its transpose.\<close>

definition square :: "nat \<Rightarrow> 'w matrix \<Rightarrow> bool" where
  "square n w = (length w = n \<and> list_all (\<lambda>row. length row = n) w)"

definition symmetric :: "nat \<Rightarrow> 'w matrix \<Rightarrow> bool" where
  "symmetric n w =
     list_all (\<lambda>(i, j). w ! i ! j = w ! j ! i) (List.product [0..<n] [0..<n])"

text \<open>\<^verbatim>\<open>number_list[keep]\<close> for a Boolean array \<open>keep\<close>: the entries where it holds.\<close>

definition masked :: "'a list \<Rightarrow> bool list \<Rightarrow> 'a list" where
  "masked number_list keep = map fst (filter snd (zip number_list keep))"

text \<open>
  Modelled from the spec: \<^verbatim>\<open>partition.partition_value(x, number_list)\<close>, which the
  notebook imports from the optimisation library; its code is not among the sources.
  Section 4.1 of the specification: "square of (sum of numbers assigned to 0) minus (sum
  of numbers assigned to 1)"; the notebook: "we minimize the difference square". In the
  library's terms:
  \<^verbatim>\<open>
  diff = np.sum(number_list[x == 0]) - np.sum(number_list[x == 1])
  return diff * diff
  \<close>
  The numbers are of any commutative ring: the integers of the notebook, the reals of
  the specification, or 64-bit machine integers with their wrap-around. \<open>x\<close> and
  \<open>number_list\<close> have the same length in every call of the notebook; the model does not
  say what numpy does with a mask of another length.
\<close>

definition partition_value :: "assignment \<Rightarrow> 'a::comm_ring_1 list \<Rightarrow> 'a" where
  "partition_value x number_list =
     (let diff = sum_list (masked number_list (map (\<lambda>xi. xi = 0) x))
               - sum_list (masked number_list (map (\<lambda>xi. xi = 1) x))
      in diff * diff)"

text \<open>
  The sum of the numbers assigned bit \<open>b\<close>, in the words of the specification: over
  the positions \<open>i\<close> with \<open>x[i] = b\<close>.
\<close>

definition assigned :: "assignment \<Rightarrow> int \<Rightarrow> nat list" where
  "assigned x b = filter (\<lambda>i. x ! i = b) [0..<length x]"

definition subset_sum :: "assignment \<Rightarrow> 'a::comm_ring_1 list \<Rightarrow> int \<Rightarrow> 'a" where
  "subset_sum x number_list b = sum_list (map (\<lambda>i. number_list ! i) (assigned x b))"

text \<open>The number list that the second cell of partition.ipynb reads and prints.\<close>

definition sample_partition :: "int list" where
  "sample_partition = [1, 3, 4, 7, 10, 13, 15, 16]"

section \<open>The Exact Solver of the specification\<close>

text \<open>
  Modelled from the spec: the Exact Solver of section 4.2 with its balance constraint
  flag. The notebooks hold its graph-partition instance only (\<^verbatim>\<open>brute_force\<close>, flag
  set); no cell minimises the number-partition objective by enumeration. Section 4.2:
  "enumerate all 2^n binary strings of length n in increasing integer order; for
  graph-partition mode, skip any assignment whose count of 1-bits is not exactly n/2
  [...]; evaluate the objective on each remaining candidate; track the minimum value seen
  and (optionally) the assignment(s) achieving it", the output being the "minimal
  objective value found (and, if tracked, the assignment achieving it -- ties broken by
  first-encountered in enumeration order)". The result is \<open>None\<close> when no candidate
  remains.
\<close>

definition count_ones :: "assignment \<Rightarrow> nat" where
  "count_ones a = length (filter (\<lambda>x. x = 1) a)"

definition remaining :: "nat \<Rightarrow> bool \<Rightarrow> assignment list" where
  "remaining n balance =
     filter (\<lambda>a. if balance then 2 * count_ones a = n else True) (binary_strings n)"

definition track ::
  "(assignment \<Rightarrow> 'v::linorder) \<Rightarrow> assignment \<Rightarrow> ('v \<times> assignment) option
     \<Rightarrow> ('v \<times> assignment) option" where
  "track objective a best =
     (case best of
        None \<Rightarrow> Some (objective a, a)
      | Some (v, b) \<Rightarrow> if objective a < v then Some (objective a, a) else Some (v, b))"

definition exact_solver ::
  "(assignment \<Rightarrow> 'v::linorder) \<Rightarrow> nat \<Rightarrow> bool \<Rightarrow> ('v \<times> assignment) option" where
  "exact_solver objective n balance = fold (track objective) (remaining n balance) None"

section \<open>The solver cells of partition.ipynb\<close>

text \<open>
  An exception that a call of the library raises, with its message \<^verbatim>\<open>str(ex)\<close>.
  \<^verbatim>\<open>except Exception\<close> catches the exceptions of class \<^verbatim>\<open>Exception\<close> and of its
  subclasses, \<^verbatim>\<open>ImportError\<close> among them; \<^verbatim>\<open>KeyboardInterrupt\<close> and \<^verbatim>\<open>SystemExit\<close>
  derive from \<^verbatim>\<open>BaseException\<close> only and pass through it.
\<close>

datatype exn = Exception string | BaseException string

text \<open>What a call of \<^verbatim>\<open>print\<close> writes: its arguments, a line of the output.\<close>

datatype 'r printed = Str string | Float 'r | Integer int | Array "int list"

type_synonym 'r printout = "'r printed list list"

text \<open>
  The results of the three solvers, with the fields the cells read: the result object of
  \<^verbatim>\<open>NumPyMinimumEigensolver\<close>, the one of \<^verbatim>\<open>VQE\<close>, and the dictionary of
  \<^verbatim>\<open>ClassicalCPLEX\<close>, whose entry \<^verbatim>\<open>'x_sol'\<close> is a dictionary from positions to bits
  (a list of pairs with distinct keys).
\<close>

record ('r, 's) eigen_result =
  eigenvalue_real :: 'r
  eigenstate :: 's

record ('r, 's) vqe_result =
  vqe_eigenvalue_real :: 'r
  vqe_eigenstate :: 's
  optimizer_time :: 'r

record 'r cplex_result =
  x_sol :: "(int \<times> int) list"
  energy :: 'r
  eval_time :: 'r

text \<open>
  The library as the cells meet it: each solver returns its result or raises, and so
  does the import of \<^verbatim>\<open>ClassicalCPLEX\<close>, which needs CPLEX to be installed.
\<close>

record ('op, 'r, 's) library =
  NumPyMinimumEigensolver_run :: "'op \<Rightarrow> exn + ('r, 's) eigen_result"
  import_ClassicalCPLEX :: "exn + unit"
  ClassicalCPLEX_run :: "'op \<Rightarrow> exn + 'r cplex_result"
  VQE_run :: "'op \<Rightarrow> exn + ('r, 's) vqe_result"
  sample_most_likely :: "'s \<Rightarrow> assignment"

text \<open>
  \<^verbatim>\<open>
  result = NumPyMinimumEigensolver(qubitOp).run()
  x = sample_most_likely(result.eigenstate)
  print('energy:', result.eigenvalue.real)
  print('partition objective:', result.eigenvalue.real + offset)
  print('solution:', x)
  print('solution objective:', partition.partition_value(x, number_list))
  \<close>
  A cell returns the lines it prints, or the exception that ends it.
\<close>

definition cell_5 ::
  "('op, 'r::plus, 's) library \<Rightarrow> 'op \<Rightarrow> 'r \<Rightarrow> int list \<Rightarrow> exn + 'r printout" where
  "cell_5 lib qubitOp offset number_list =
     (case NumPyMinimumEigensolver_run lib qubitOp of
        Inl ex \<Rightarrow> Inl ex
      | Inr result \<Rightarrow>
          let x = sample_most_likely lib (eigenstate result)
          in Inr [[Str ''energy:'', Float (eigenvalue_real result)],
                  [Str ''partition objective:'', Float (eigenvalue_real result + offset)],
                  [Str ''solution:'', Array x],
                  [Str ''solution objective:'', Integer (partition_value x number_list)]])"

text \<open>
  The body of the \<^verbatim>\<open>try\<close> statement:
  \<^verbatim>\<open>
  from qiskit.aqua.algorithms import ClassicalCPLEX
  result = ClassicalCPLEX(qubitOp, display=0).run()
  x_dict = result['x_sol']
  print('energy:', result['energy'])
  print('time:', result['eval_time'])
  print('partition objective:', result['energy'] + offset)
  x = np.array([x_dict[i] for i in sorted(x_dict.keys())])
  print('solution:', x)
  print('solution objective:', partition.partition_value(x, number_list))
  \<close>
\<close>

definition try_ClassicalCPLEX ::
  "('op, 'r::plus, 's) library \<Rightarrow> 'op \<Rightarrow> 'r \<Rightarrow> int list \<Rightarrow> exn + 'r printout" where
  "try_ClassicalCPLEX lib qubitOp offset number_list =
     (case import_ClassicalCPLEX lib of
        Inl ex \<Rightarrow> Inl ex
      | Inr imported \<Rightarrow>
          (case ClassicalCPLEX_run lib qubitOp of
             Inl ex \<Rightarrow> Inl ex
           | Inr result \<Rightarrow>
               let x_dict = x_sol result;
                   x = map snd (sort_key fst x_dict)
               in Inr [[Str ''energy:'', Float (energy result)],
                       [Str ''time:'', Float (eval_time result)],
                       [Str ''partition objective:'', Float (energy result + offset)],
                       [Str ''solution:'', Array x],
                       [Str ''solution objective:'', Integer (partition_value x number_list)]]))"

text \<open>
  \<^verbatim>\<open>
  try:
      ...
  except Exception as ex:
      print(str(ex))
  \<close>
\<close>

definition cell_6 ::
  "('op, 'r::plus, 's) library \<Rightarrow> 'op \<Rightarrow> 'r \<Rightarrow> int list \<Rightarrow> exn + 'r printout" where
  "cell_6 lib qubitOp offset number_list =
     (case try_ClassicalCPLEX lib qubitOp offset number_list of
        Inl (Exception msg) \<Rightarrow> Inr [[Str msg]]
      | Inl (BaseException msg) \<Rightarrow> Inl (BaseException msg)
      | Inr written \<Rightarrow> Inr written)"

text \<open>
  \<^verbatim>\<open>
  result = vqe.run(QuantumInstance(BasicAer.get_backend('statevector_simulator')))
  x = sample_most_likely(result.eigenstate)
  print('energy:', result.eigenvalue.real)
  print('time:', result.optimizer_time)
  print('partition objective:', result.eigenvalue.real + offset)
  print('solution:', x)
  print('solution objective:', partition.partition_value(x, number_list))
  \<close>
\<close>

definition cell_7 ::
  "('op, 'r::plus, 's) library \<Rightarrow> 'op \<Rightarrow> 'r \<Rightarrow> int list \<Rightarrow> exn + 'r printout" where
  "cell_7 lib qubitOp offset number_list =
     (case VQE_run lib qubitOp of
        Inl ex \<Rightarrow> Inl ex
      | Inr result \<Rightarrow>
          let x = sample_most_likely lib (vqe_eigenstate result)
          in Inr [[Str ''energy:'', Float (vqe_eigenvalue_real result)],
                  [Str ''time:'', Float (optimizer_time result)],
                  [Str ''partition objective:'', Float (vqe_eigenvalue_real result + offset)],
                  [Str ''solution:'', Array x],
                  [Str ''solution objective:'', Integer (partition_value x number_list)]])"

text \<open>
  The cells run in order; an exception that a cell does not catch ends the run, and the
  cells after it do not run. The result is the output so far and the exception, if any.
\<close>

fun run_cells :: "(exn + 'r printout) list \<Rightarrow> 'r printout \<times> exn option" where
  "run_cells [] = ([], None)"
| "run_cells (Inl ex # cells) = ([], Some ex)"
| "run_cells (Inr written # cells) =
     (case run_cells cells of (rest, ended) \<Rightarrow> (written @ rest, ended))"

definition solver_cells ::
  "('op, 'r::plus, 's) library \<Rightarrow> 'op \<Rightarrow> 'r \<Rightarrow> int list \<Rightarrow> 'r printout \<times> exn option" where
  "solver_cells lib qubitOp offset number_list =
     run_cells [cell_5 lib qubitOp offset number_list,
                cell_6 lib qubitOp offset number_list,
                cell_7 lib qubitOp offset number_list]"

text \<open>
  A library without CPLEX, with the results the notebook prints for the two other
  solvers on the number list \<open>[9, 8, 23, 4, 2]\<close>.
\<close>

definition library_without_CPLEX :: "(unit, real, assignment) library" where
  "library_without_CPLEX =
     \<lparr> NumPyMinimumEigensolver_run =
         (\<lambda>qubitOp. Inr \<lparr> eigenvalue_real = - 694, eigenstate = [1, 1, 0, 1, 1] \<rparr>),
       import_ClassicalCPLEX = Inl (Exception ''No module named cplex''),
       ClassicalCPLEX_run = (\<lambda>qubitOp. Inl (Exception ''CPLEX is not installed'')),
       VQE_run =
         (\<lambda>qubitOp. Inr \<lparr> vqe_eigenvalue_real = - 694, vqe_eigenstate = [0, 0, 1, 0, 0],
                          optimizer_time = 38 \<rparr>),
       sample_most_likely = (\<lambda>state. state) \<rparr>"

section \<open>The brute-force cell of graph_partition.ipynb\<close>

text \<open>
  \<^verbatim>\<open>
  sol = brute_force()
  print("Objective value computed by the brute-force method is", sol)
  \<close>
  Nothing in \<^verbatim>\<open>brute_force\<close> or in the cell raises, and the cell has no other
  \<^verbatim>\<open>print\<close>. As for the solver cells, the cell returns the lines it prints, or the
  exception that ends it; a line is the text and the value of \<^verbatim>\<open>sol\<close> printed after it.
\<close>

definition brute_force_cell ::
  "(assignment \<Rightarrow> 'w \<Rightarrow> 'v::linorder) \<Rightarrow> nat \<Rightarrow> 'w \<Rightarrow> exn + (string \<times> 'v tracked) list" where
  "brute_force_cell objective num_nodes w =
     (let sol = brute_force objective num_nodes w
      in Inr [(''Objective value computed by the brute-force method is'', sol)])"

text \<open>
  What section 8 of the specification asks for a single vertex, in its words: the solver
  "must report 'no valid balanced assignment' rather than silently returning". Read as
  weakly as the words allow, a report is an exception, or a printed line that is not the
  line of the objective value.
\<close>

definition reports_no_valid_assignment :: "exn + (string \<times> 'v tracked) list \<Rightarrow> bool" where
  "reports_no_valid_assignment outcome =
     (case outcome of
        Inl ex \<Rightarrow> True
      | Inr written \<Rightarrow>
          list_ex
            (\<lambda>(label, sol). label \<noteq> ''Objective value computed by the brute-force method is'')
            written)"

section \<open>What \<^verbatim>\<open>bitfield\<close> returns\<close>

lemma digit_char_cases: "digit_char d = CHR ''0'' \<or> digit_char d = CHR ''1''"
  by (simp add: digit_char_def)

lemma bin_digits_chars: "set (bin_digits n) \<subseteq> {CHR ''0'', CHR ''1''}"
proof (induction n rule: bin_digits.induct)
  case (1 n)
  show ?case
  proof (cases "n < 2")
    case True
    then show ?thesis
      using digit_char_cases [of n] by (subst bin_digits.simps) auto
  next
    case False
    then have "set (bin_digits (n div 2)) \<subseteq> {CHR ''0'', CHR ''1''}"
      using "1.IH" by simp
    then show ?thesis
      using False digit_char_cases [of "n mod 2"] by (subst bin_digits.simps) auto
  qed
qed

lemma binary_repr_chars: "set (binary_repr num width) \<subseteq> {CHR ''0'', CHR ''1''}"
  using bin_digits_chars [of num]
  by (auto simp: binary_repr_def zfill_def Let_def)

lemma int_of_digit_char: "d < 2 \<Longrightarrow> int_of_digit (digit_char d) = int d"
  by (auto simp: int_of_digit_def digit_char_def)

lemma bits_value_snoc: "bits_value (a @ [x]) = 2 * bits_value a + x"
  by (simp add: bits_value_def)

lemma bits_value_Nil: "bits_value [] = 0"
  by (simp add: bits_value_def)

lemma bits_value_zeros: "bits_value (replicate k 0 @ a) = bits_value a"
proof -
  have "foldl (\<lambda>acc x. 2 * acc + x) (0::int) (replicate k 0) = 0"
    by (induction k) simp_all
  then show ?thesis by (simp add: bits_value_def)
qed

lemma bits_value_bin_digits: "bits_value (map int_of_digit (bin_digits n)) = int n"
proof (induction n rule: bin_digits.induct)
  case (1 n)
  show ?case
  proof (cases "n < 2")
    case True
    then show ?thesis
      by (subst bin_digits.simps) (simp add: bits_value_def int_of_digit_char)
  next
    case False
    then have "bits_value (map int_of_digit (bin_digits (n div 2))) = int (n div 2)"
      using "1.IH" by simp
    moreover have "int_of_digit (digit_char (n mod 2)) = int (n mod 2)"
      by (simp add: int_of_digit_char)
    moreover have "2 * int (n div 2) + int (n mod 2) = int n"
      by presburger
    ultimately show ?thesis using False
      by (subst bin_digits.simps) (simp add: bits_value_snoc)
  qed
qed

lemma length_bin_digits: "0 < L \<Longrightarrow> n < 2 ^ L \<Longrightarrow> length (bin_digits n) \<le> L"
proof (induction n arbitrary: L rule: bin_digits.induct)
  case (1 n)
  show ?case
  proof (cases "n < 2")
    case True
    then show ?thesis using "1.prems" by (subst bin_digits.simps) simp
  next
    case False
    obtain K where K: "L = Suc K" using "1.prems" by (cases L) auto
    have "0 < K"
    proof (rule ccontr)
      assume "\<not> 0 < K"
      then have "L = 1" using K by simp
      then show False using "1.prems" False by simp
    qed
    moreover have "n div 2 < 2 ^ K" using "1.prems" K by auto
    ultimately have "length (bin_digits (n div 2)) \<le> K"
      using "1.IH" False by simp
    then show ?thesis using False K by (subst bin_digits.simps) simp
  qed
qed

lemma length_bitfield: "0 < L \<Longrightarrow> i < 2 ^ L \<Longrightarrow> length (bitfield i L) = L"
  using length_bin_digits [of L i]
  by (auto simp: bitfield_def binary_repr_def zfill_def Let_def)

lemma int_of_digit_bit: "int_of_digit c = 0 \<or> int_of_digit c = 1"
  by (simp add: int_of_digit_def)

lemma is_bits_bitfield: "is_bits (bitfield i L)"
  by (simp add: is_bits_def bitfield_def list_all_iff int_of_digit_bit)

lemma int_of_digit_zero: "int_of_digit (CHR ''0'') = 0"
  by (simp add: int_of_digit_def)

lemma bits_value_bitfield: "bits_value (bitfield i L) = int i"
proof (cases "i = 0")
  case True
  have "bits_value (replicate k 0 @ []) = 0" for k
    by (simp only: bits_value_zeros bits_value_Nil)
  then show ?thesis using True
    by (simp add: bitfield_def binary_repr_def int_of_digit_zero)
next
  case False
  then show ?thesis
    by (simp add: bitfield_def binary_repr_def zfill_def Let_def int_of_digit_zero
        bits_value_zeros bits_value_bin_digits)
qed

section \<open>What the loop of \<^verbatim>\<open>brute_force\<close> computes\<close>

lemma iterations_0: "iterations objective w L 0 = \<lparr> minimal_v = Infinity, evaluated = [] \<rparr>"
  by (simp add: iterations_def)

lemma iterations_Suc:
  "iterations objective w L (Suc k) = loop_body objective w L k (iterations objective w L k)"
  by (simp add: iterations_def)

lemma evaluated_loop_body:
  "evaluated (loop_body objective w L i st) =
     evaluated st @ (if balanced L (bitfield i L) then [bitfield i L] else [])"
  by (simp add: loop_body_def balanced_def Let_def)

lemma minimal_v_loop_body:
  "minimal_v (loop_body objective w L i st) =
     (if balanced L (bitfield i L)
      then (if below (objective (bitfield i L) w) (minimal_v st)
            then Value (objective (bitfield i L) w) else minimal_v st)
      else minimal_v st)"
  by (simp add: loop_body_def balanced_def Let_def)

lemma evaluated_iterations:
  "evaluated (iterations objective w L k) =
     filter (balanced L) (map (\<lambda>i. bitfield i L) [0..<k])"
  by (induction k) (simp_all add: iterations_0 iterations_Suc evaluated_loop_body)

lemma least_value_snoc:
  "least_value (vs @ [v]) = (if below v (least_value vs) then Value v else least_value vs)"
proof (cases "vs = []")
  case True
  then show ?thesis by (simp add: least_value_def)
next
  case False
  define m where "m = Min (set vs)"
  have "Min (set (vs @ [v])) = min v m"
    using False by (simp add: m_def)
  then have "least_value (vs @ [v]) = Value (min v m)"
    by (simp add: least_value_def)
  moreover have "least_value vs = Value m"
    using False by (simp add: least_value_def m_def)
  ultimately show ?thesis
    by (auto simp: min_def)
qed

lemma minimal_v_iterations:
  "minimal_v (iterations objective w L k) =
     least_value (map (\<lambda>cur. objective cur w) (evaluated (iterations objective w L k)))"
proof (induction k)
  case 0
  show ?case by (simp add: iterations_0 least_value_def)
next
  case (Suc k)
  show ?case
  proof (cases "balanced L (bitfield k L)")
    case True
    then show ?thesis
      by (simp add: iterations_Suc minimal_v_loop_body evaluated_loop_body least_value_snoc
          Suc.IH [symmetric])
  next
    case False
    then show ?thesis
      by (simp add: iterations_Suc minimal_v_loop_body evaluated_loop_body Suc.IH)
  qed
qed

lemma evaluated_brute_force_run:
  "evaluated (brute_force_run objective L w) = filter (balanced L) (candidates L)"
  by (simp add: brute_force_run_def candidates_def evaluated_iterations)

lemma brute_force_least_value:
  "brute_force objective L w =
     least_value (map (\<lambda>cur. objective cur w) (evaluated (brute_force_run objective L w)))"
  by (simp add: brute_force_def brute_force_run_def minimal_v_iterations)

lemma length_binary_strings: "length (binary_strings n) = 2 ^ n"
  by (induction n) simp_all

lemma set_binary_strings: "set (binary_strings n) = {a. length a = n \<and> is_bits a}"
proof (induction n)
  case 0
  show ?case by (auto simp: is_bits_def)
next
  case (Suc n)
  show ?case
  proof (rule set_eqI)
    fix a :: assignment
    show "a \<in> set (binary_strings (Suc n)) \<longleftrightarrow> a \<in> {a. length a = Suc n \<and> is_bits a}"
    proof (cases a)
      case Nil
      then show ?thesis by auto
    next
      case (Cons b t)
      then show ?thesis using Suc.IH by (auto simp: is_bits_def)
    qed
  qed
qed

lemma bits_value_append:
  "bits_value (a @ b) = bits_value a * 2 ^ length b + bits_value b"
proof (induction b rule: rev_induct)
  case Nil
  show ?case by (simp add: bits_value_Nil)
next
  case (snoc x xs)
  have "bits_value (a @ xs @ [x]) = 2 * bits_value (a @ xs) + x"
    using bits_value_snoc [of "a @ xs" x] by simp
  then show ?case using snoc by (simp add: bits_value_snoc algebra_simps)
qed

lemma bits_value_Cons: "bits_value (b # a) = b * 2 ^ length a + bits_value a"
  using bits_value_append [of "[b]" a] by (simp add: bits_value_def)

lemma bits_value_bounds: "is_bits a \<Longrightarrow> 0 \<le> bits_value a \<and> bits_value a < 2 ^ length a"
proof (induction a rule: rev_induct)
  case Nil
  show ?case by (simp add: bits_value_Nil)
next
  case (snoc x xs)
  then have "is_bits xs" and "x = 0 \<or> x = 1" by (auto simp: is_bits_def)
  then show ?case using snoc.IH by (auto simp: bits_value_snoc)
qed

lemma bits_value_inj:
  "length a = length b \<Longrightarrow> is_bits a \<Longrightarrow> is_bits b \<Longrightarrow> bits_value a = bits_value b \<Longrightarrow> a = b"
proof (induction a b rule: list_induct2)
  case Nil
  show ?case by simp
next
  case (Cons x xs y ys)
  then have bits: "is_bits xs" "is_bits ys" and xy: "x = 0 \<or> x = 1" "y = 0 \<or> y = 1"
    by (auto simp: is_bits_def)
  have bx: "0 \<le> bits_value xs \<and> bits_value xs < 2 ^ length xs"
    using bits(1) by (rule bits_value_bounds)
  have by': "0 \<le> bits_value ys \<and> bits_value ys < 2 ^ length xs"
    using bits_value_bounds [OF bits(2)] Cons.hyps by simp
  have eq: "x * 2 ^ length xs + bits_value xs = y * 2 ^ length xs + bits_value ys"
    using Cons.prems(3) Cons.hyps by (simp add: bits_value_Cons)
  have "x = y"
    using xy eq bx by' by auto
  moreover from this eq have "bits_value xs = bits_value ys" by simp
  ultimately show ?case using Cons.IH bits by simp
qed

lemma nth_binary_strings:
  "i < 2 ^ n \<Longrightarrow> bits_value (binary_strings n ! i) = int i"
proof (induction n arbitrary: i)
  case 0
  then show ?case by (simp add: bits_value_Nil)
next
  case (Suc n)
  let ?bs = "binary_strings n"
  have len: "length ?bs = 2 ^ n" by (rule length_binary_strings)
  show ?case
  proof (cases "i < 2 ^ n")
    case True
    then have "binary_strings (Suc n) ! i = 0 # (?bs ! i)"
      by (simp add: nth_append len)
    moreover have "bits_value (?bs ! i) = int i" using True by (rule Suc.IH)
    ultimately show ?thesis by (simp add: bits_value_Cons)
  next
    case False
    then have lt: "i - 2 ^ n < 2 ^ n" using Suc.prems by simp
    have "binary_strings (Suc n) ! i = 1 # (?bs ! (i - 2 ^ n))"
      using False lt by (simp add: nth_append len)
    moreover have "bits_value (?bs ! (i - 2 ^ n)) = int (i - 2 ^ n)" using lt by (rule Suc.IH)
    moreover have "length (?bs ! (i - 2 ^ n)) = n"
      using lt len set_binary_strings [of n] nth_mem [of "i - 2 ^ n" ?bs] by auto
    ultimately show ?thesis using False by (simp add: bits_value_Cons of_nat_diff)
  qed
qed

lemma candidates_binary_strings: "0 < n \<Longrightarrow> candidates n = binary_strings n"
proof (rule nth_equalityI)
  show "length (candidates n) = length (binary_strings n)"
    by (simp add: candidates_def length_binary_strings)
next
  fix i
  assume n: "0 < n" and "i < length (candidates n)"
  then have i: "i < 2 ^ n" by (simp add: candidates_def)
  then have mem: "binary_strings n ! i \<in> set (binary_strings n)"
    by (simp add: length_binary_strings)
  have c: "candidates n ! i = bitfield i n" using i by (simp add: candidates_def)
  have "bitfield i n = binary_strings n ! i"
  proof (rule bits_value_inj)
    show "length (bitfield i n) = length (binary_strings n ! i)"
      using mem length_bitfield [OF n i] by (simp add: set_binary_strings)
    show "is_bits (bitfield i n)" by (rule is_bits_bitfield)
    show "is_bits (binary_strings n ! i)" using mem by (simp add: set_binary_strings)
    show "bits_value (bitfield i n) = bits_value (binary_strings n ! i)"
      using i by (simp add: bits_value_bitfield nth_binary_strings)
  qed
  then show "candidates n ! i = binary_strings n ! i" using c by simp
qed

lemma count_nonzero_bits: "is_bits a \<Longrightarrow> count_nonzero a = int (count_ones a)"
proof -
  assume "is_bits a"
  then have "filter (\<lambda>x. x \<noteq> 0) a = filter (\<lambda>x. x = 1) a"
    by (intro filter_cong) (auto simp: is_bits_def list_all_iff)
  then show ?thesis by (simp add: count_nonzero_def count_ones_def)
qed

lemma balanced_bits: "is_bits a \<Longrightarrow> balanced L a = (2 * count_ones a = L)"
  by (auto simp: balanced_def count_nonzero_bits)

lemma is_bits_candidates: "a \<in> set (candidates L) \<Longrightarrow> is_bits a"
  by (auto simp: candidates_def is_bits_bitfield)

lemma filter_balanced_candidates:
  "filter (balanced L) (candidates L) = filter (\<lambda>a. 2 * count_ones a = L) (candidates L)"
  by (intro filter_cong) (simp_all add: balanced_bits is_bits_candidates)

lemma map_bits_value_candidates: "map bits_value (candidates L) = map int [0..<2 ^ L]"
  by (simp add: candidates_def bits_value_bitfield)

lemma brute_force_Infinity_iff:
  "brute_force objective n w = Infinity \<longleftrightarrow> filter (balanced n) (candidates n) = []"
  by (simp add: brute_force_least_value evaluated_brute_force_run least_value_def)

lemma brute_force_size_0:
  "candidates 0 = [[0]] \<and> evaluated (brute_force_run objective 0 w) = [[0]]
   \<and> brute_force objective 0 w = Value (objective [0] w)"
proof -
  have c: "candidates 0 = [[0]]" by code_simp
  have b: "balanced 0 [0]" by (simp add: balanced_def count_nonzero_def)
  have e: "evaluated (brute_force_run objective 0 w) = [[0]]"
    by (simp add: evaluated_brute_force_run c b)
  have "brute_force objective 0 w = Value (objective [0] w)"
    by (simp add: brute_force_least_value e least_value_def)
  with c e show ?thesis by simp
qed

lemma balanced_half_half:
  "is_bits (replicate k 0 @ replicate k 1) \<and> length (replicate k 0 @ replicate k 1) = 2 * k
   \<and> balanced (2 * k) (replicate k 0 @ replicate k 1)"
  by (auto simp: is_bits_def balanced_def count_nonzero_def list_all_iff)

lemma minimal_v_changes:
  assumes "minimal_v (iterations objective w L m) \<noteq> Infinity"
  shows "\<exists>k<m. minimal_v (iterations objective w L (Suc k)) \<noteq> minimal_v (iterations objective w L k)"
  using assms
proof (induction m)
  case 0
  then show ?case by (simp add: iterations_0)
next
  case (Suc m)
  show ?case
  proof (cases "minimal_v (iterations objective w L (Suc m)) = minimal_v (iterations objective w L m)")
    case True
    then have "minimal_v (iterations objective w L m) \<noteq> Infinity" using Suc.prems by simp
    then obtain k where "k < m"
      and "minimal_v (iterations objective w L (Suc k)) \<noteq> minimal_v (iterations objective w L k)"
      using Suc.IH by blast
    then show ?thesis using less_Suc_eq by blast
  next
    case False
    then show ?thesis by blast
  qed
qed

section \<open>The claims about \<^verbatim>\<open>brute_force\<close>\<close>

text \<open>
  C1. For a problem of size \<open>n \<ge> 1\<close>, the loop of \<^verbatim>\<open>brute_force\<close> enumerates the
  \<open>2^n\<close> binary strings of length \<open>n\<close>, every one of them, the \<open>i\<close>-th being the
  string that writes \<open>i\<close> (increasing integer order); it calls the objective on exactly
  the candidates whose number of 1-bits is \<open>n/2\<close>, in that order; and it returns the
  least objective value of these candidates (\<^verbatim>\<open>np.inf\<close> when there is none). Size 0 is
  left out: section 4.2 of the specification calls it unspecified, and there
  \<^verbatim>\<open>np.binary_repr(0, 0)\<close> is the one-character string \<^verbatim>\<open>'0'\<close>
  (\<open>brute_force_size_0\<close>).
\<close>

theorem brute_force_enumerates:
  assumes "0 < n"
  shows "length (candidates n) = 2 ^ n
    \<and> set (candidates n) = {a. length a = n \<and> is_bits a}
    \<and> map bits_value (candidates n) = map int [0..<2 ^ n]
    \<and> evaluated (brute_force_run objective n w)
        = filter (\<lambda>a. 2 * count_ones a = n) (candidates n)
    \<and> brute_force objective n w
        = least_value (map (\<lambda>a. objective a w)
            (filter (\<lambda>a. 2 * count_ones a = n) (candidates n)))"
proof -
  have c: "candidates n = binary_strings n"
    using assms by (rule candidates_binary_strings)
  have "length (candidates n) = 2 ^ n"
    by (simp add: candidates_def)
  moreover have "set (candidates n) = {a. length a = n \<and> is_bits a}"
    by (simp only: c set_binary_strings)
  moreover have "map bits_value (candidates n) = map int [0..<2 ^ n]"
    by (rule map_bits_value_candidates)
  moreover have e: "evaluated (brute_force_run objective n w)
      = filter (\<lambda>a. 2 * count_ones a = n) (candidates n)"
    by (simp only: evaluated_brute_force_run filter_balanced_candidates)
  moreover have "brute_force objective n w
      = least_value (map (\<lambda>a. objective a w)
          (filter (\<lambda>a. 2 * count_ones a = n) (candidates n)))"
    by (simp only: brute_force_least_value e)
  ultimately show ?thesis by blast
qed

theorem brute_force_enumerates_witness:
  "(0::nat) < 2
   \<and> candidates 2 = [[0, 0], [0, 1], [1, 0], [1, 1]]
   \<and> evaluated (brute_force_run objective_value 2 [[0, 1], [1, 0::int]]) = [[0, 1], [1, 0]]
   \<and> brute_force objective_value 2 [[0, 1], [1, 0::int]] = Value 1"
proof -
  have n: "(0::nat) < 2" by simp
  have c: "candidates 2 = [[0, 0], [0, 1], [1, 0], [1, 1]]" by code_simp
  have f: "filter (\<lambda>a. 2 * count_ones a = 2) [[0, 0], [0, 1], [1, 0], [1, 1::int]]
      = [[0, 1], [1, 0]]"
    by (simp add: count_ones_def)
  have v: "least_value (map (\<lambda>a. objective_value a [[0, 1], [1, 0::int]]) [[0, 1], [1, 0]])
      = Value 1"
    by (simp add: least_value_def objective_value_def outer_def times_elementwise_def
        sum_all_def)
  show ?thesis
    using n c brute_force_enumerates [OF n, of objective_value "[[0, 1], [1, 0::int]]"]
    by (simp only: c f v simp_thms)
qed

text \<open>
  C9. After any number \<open>k\<close> of iterations of the loop, and so when it ends, every
  assignment the objective has been called on is a list of bits with exactly \<open>L/2\<close>
  ones: the balance test stands before the call.
\<close>

theorem objective_only_on_balanced:
  "(\<forall>cur \<in> set (evaluated (iterations objective w L k)).
      is_bits cur \<and> count_nonzero cur * 2 = int L \<and> 2 * count_ones cur = L)
   \<and> (\<forall>cur \<in> set (evaluated (brute_force_run objective L w)).
      is_bits cur \<and> count_nonzero cur * 2 = int L \<and> 2 * count_ones cur = L)"
proof -
  have inv: "is_bits cur \<and> count_nonzero cur * 2 = int L \<and> 2 * count_ones cur = L"
    if "cur \<in> set (evaluated (iterations objective w L m))" for cur m
  proof -
    from that have b: "balanced L cur" and "\<exists>i. cur = bitfield i L"
      by (auto simp: evaluated_iterations)
    then have bits: "is_bits cur" by (auto simp: is_bits_bitfield)
    from b have "count_nonzero cur * 2 = int L" by (simp add: balanced_def)
    moreover from b bits have "2 * count_ones cur = L" by (simp add: balanced_bits)
    ultimately show ?thesis using bits by simp
  qed
  then show ?thesis
    by (simp add: brute_force_run_def)
qed

theorem objective_only_on_balanced_witness:
  "evaluated (iterations objective_value w_example 4 6) = [[0, 0, 1, 1], [0, 1, 0, 1]]
   \<and> count_nonzero [0, 1, 0, 1] * 2 = int 4 \<and> 2 * count_ones [0, 1, 0, 1] = 4
   \<and> [0, 1, 0, 1] \<in> set (evaluated (brute_force_run objective_value 4 w_example))"
proof -
  have e: "evaluated (iterations objective_value w_example 4 6) = [[0, 0, 1, 1], [0, 1, 0, 1]]"
    by code_simp
  have r: "evaluated (brute_force_run objective_value 4 w_example)
      = [[0, 0, 1, 1], [0, 1, 0, 1], [0, 1, 1, 0], [1, 0, 0, 1], [1, 0, 1, 0], [1, 1, 0, 0]]"
    by code_simp
  show ?thesis
    using objective_only_on_balanced [of objective_value w_example 4 6]
    by (simp add: e r)
qed

text \<open>
  C10. For every even size \<open>n \<ge> 2\<close> and every objective, \<^verbatim>\<open>brute_force\<close> returns
  an objective value and not \<^verbatim>\<open>np.inf\<close>: one of the candidates is balanced, every
  candidate \<^verbatim>\<open>bitfield(i, n)\<close> with \<open>i < 2^n\<close> has length \<open>n\<close>, the objective is called at
  least once, and some iteration changes \<^verbatim>\<open>minimal_v\<close>.
\<close>

theorem brute_force_finite:
  assumes "even n" and "2 \<le> n"
  shows "(\<exists>v. brute_force objective n w = Value v)
    \<and> brute_force objective n w \<noteq> Infinity
    \<and> (\<exists>a \<in> set (candidates n). balanced n a)
    \<and> (\<forall>i < 2 ^ n. length (bitfield i n) = n)
    \<and> evaluated (brute_force_run objective n w) \<noteq> []
    \<and> (\<exists>k < 2 ^ n. minimal_v (iterations objective w n (Suc k))
                      \<noteq> minimal_v (iterations objective w n k))"
proof -
  from assms obtain k where k: "n = 2 * k" by (auto elim: evenE)
  have pos: "0 < n" using assms by simp
  let ?a = "replicate k (0::int) @ replicate k 1"
  have a: "is_bits ?a" "length ?a = n" "balanced n ?a"
    using balanced_half_half [of k] k by simp_all
  have "?a \<in> set (binary_strings n)"
    using a by (simp add: set_binary_strings)
  then have mem: "?a \<in> set (candidates n)"
    using pos by (simp add: candidates_binary_strings)
  with a(3) have ex: "\<exists>a \<in> set (candidates n). balanced n a" by blast
  then have ne: "filter (balanced n) (candidates n) \<noteq> []"
    by (simp add: filter_empty_conv)
  then have fin: "brute_force objective n w \<noteq> Infinity"
    by (simp add: brute_force_Infinity_iff)
  then have val: "\<exists>v. brute_force objective n w = Value v"
    by (cases "brute_force objective n w") simp_all
  have len: "\<forall>i < 2 ^ n. length (bitfield i n) = n"
    using pos by (simp add: length_bitfield)
  have ev: "evaluated (brute_force_run objective n w) \<noteq> []"
    using ne by (simp add: evaluated_brute_force_run)
  have "minimal_v (iterations objective w n (2 ^ n)) \<noteq> Infinity"
    using fin by (simp add: brute_force_def brute_force_run_def)
  then have "\<exists>k < 2 ^ n. minimal_v (iterations objective w n (Suc k))
      \<noteq> minimal_v (iterations objective w n k)"
    by (rule minimal_v_changes)
  with val fin ex len ev show ?thesis by blast
qed

theorem brute_force_finite_witness:
  "even (2::nat) \<and> (2::nat) \<le> 2
   \<and> brute_force objective_value 2 [[0, 1], [1, 0::int]] = Value 1
   \<and> balanced 2 (bitfield 1 2) \<and> length (bitfield 1 2) = 2
   \<and> minimal_v (iterations objective_value [[0, 1], [1, 0::int]] 2 2) = Value 1
   \<and> minimal_v (iterations objective_value [[0, 1], [1, 0::int]] 2 1) = Infinity"
proof -
  have e: "even (2::nat)" and l: "(2::nat) \<le> 2" by simp_all
  have v: "brute_force objective_value 2 [[0, 1], [1, 0::int]] = Value 1" by code_simp
  have b: "balanced 2 (bitfield 1 2)" by code_simp
  have n: "length (bitfield 1 2) = 2" by code_simp
  have m2: "minimal_v (iterations objective_value [[0, 1], [1, 0::int]] 2 2) = Value 1"
    by code_simp
  have m1: "minimal_v (iterations objective_value [[0, 1], [1, 0::int]] 2 1) = Infinity"
    by code_simp
  show ?thesis
    using brute_force_finite [OF e l, of objective_value "[[0, 1], [1, 0::int]]"] e l v b n m2 m1
    by blast
qed

text \<open>
  C5, as the code has it. For a single vertex no candidate passes the balance test, the
  objective is never called, and \<^verbatim>\<open>brute_force\<close> returns the \<^verbatim>\<open>np.inf\<close> that
  \<^verbatim>\<open>minimal_v\<close> was initialised to, whatever the objective; this is not the objective
  value 0. The cell raises nothing and prints its one usual line, with \<^verbatim>\<open>inf\<close> in the
  place of the objective value. For every size \<open>m\<close>, \<^verbatim>\<open>np.inf\<close> is returned exactly
  when no candidate is balanced.
\<close>

theorem brute_force_single_vertex:
  "brute_force objective 1 w = Infinity
   \<and> evaluated (brute_force_run objective 1 w) = []
   \<and> filter (balanced 1) (candidates 1) = []
   \<and> brute_force objective 1 w \<noteq> Value 0
   \<and> brute_force_cell objective 1 w
       = Inr [(''Objective value computed by the brute-force method is'', Infinity)]
   \<and> (brute_force objective m w = Infinity) = (filter (balanced m) (candidates m) = [])"
proof -
  have c: "candidates 1 = [[0], [1]]" by code_simp
  have "filter (balanced 1) [[0], [1]] = []"
    by (simp add: balanced_def count_nonzero_def)
  then have f: "filter (balanced 1) (candidates 1) = []"
    by (simp only: c)
  then have e: "evaluated (brute_force_run objective 1 w) = []"
    by (simp only: evaluated_brute_force_run)
  have i: "brute_force objective 1 w = Infinity"
    using f by (simp only: brute_force_Infinity_iff)
  then have p: "brute_force_cell objective 1 w
      = Inr [(''Objective value computed by the brute-force method is'', Infinity)]"
    by (simp add: brute_force_cell_def)
  have "(brute_force objective m w = Infinity) = (filter (balanced m) (candidates m) = [])"
    by (rule brute_force_Infinity_iff)
  with e f i p show ?thesis by simp
qed

text \<open>
  The last part at size 2: both \<open>[0, 1]\<close> and \<open>[1, 0]\<close> are balanced, so the result
  is not \<^verbatim>\<open>np.inf\<close>.
\<close>

theorem brute_force_single_vertex_witness:
  "filter (balanced 2) (candidates 2) = [[0, 1], [1, 0]]
   \<and> brute_force objective_value 2 [[0, 1], [1, 0 :: int]] \<noteq> Infinity
   \<and> brute_force objective_value 1 [[0, 1], [1, 0 :: int]] = Infinity"
proof -
  have f: "filter (balanced 2) (candidates 2) = [[0, 1], [1, 0]]" by code_simp
  then have ne: "filter (balanced 2) (candidates 2) \<noteq> []" by simp
  show ?thesis
    using brute_force_single_vertex [of objective_value "[[0, 1], [1, 0 :: int]]" 2] f ne
    by blast
qed

text \<open>
  C5 as the specification states it does not hold of the code. On a graph of one vertex
  the cell ends normally and prints the line of the objective value with \<^verbatim>\<open>inf\<close> as the
  value: there is no exception and no other message, so nothing reports that no valid
  balanced assignment exists.
\<close>

theorem brute_force_single_vertex_no_report:
  "brute_force_cell objective_value 1 [[0 :: real]]
     = Inr [(''Objective value computed by the brute-force method is'', Infinity)]
   \<and> \<not> reports_no_valid_assignment (brute_force_cell objective_value 1 [[0 :: real]])"
proof -
  have c: "brute_force_cell objective_value 1 [[0 :: real]]
      = Inr [(''Objective value computed by the brute-force method is'', Infinity)]"
    by code_simp
  have "\<not> reports_no_valid_assignment
      (Inr [(''Objective value computed by the brute-force method is'', Infinity :: int tracked)])"
    by (simp add: reports_no_valid_assignment_def)
  with c show ?thesis by simp
qed

text \<open>
  An exception with that message, or a line with it, would be a report; the line the cell
  prints for the example graph is not one either.
\<close>

lemma reports_no_valid_assignment_examples:
  "reports_no_valid_assignment (Inl (Exception ''no valid balanced assignment''))
   \<and> reports_no_valid_assignment (Inr [(''no valid balanced assignment'', Infinity)])
   \<and> \<not> reports_no_valid_assignment (brute_force_cell objective_value 4 w_example)"
proof -
  have "brute_force_cell objective_value 4 w_example
      = Inr [(''Objective value computed by the brute-force method is'', Value 3)]"
    by code_simp
  then show ?thesis
    by (simp add: reports_no_valid_assignment_def)
qed

section \<open>The objectives as sums over positions\<close>

lemma masked_complement:
  "masked number_list (map (\<lambda>xi. xi = 0) (complement x)) = masked number_list (map (\<lambda>xi. xi = 1) x)"
  "masked number_list (map (\<lambda>xi. xi = 1) (complement x)) = masked number_list (map (\<lambda>xi. xi = 0) x)"
  by (simp_all add: complement_def comp_def)

lemma masked_snoc:
  "length ns = length ks \<Longrightarrow>
     masked (ns @ [n]) (ks @ [k]) = masked ns ks @ (if k then [n] else [])"
  by (simp add: masked_def)

lemma masked_positions:
  "length x = length number_list \<Longrightarrow>
     masked number_list (map P x)
       = map (\<lambda>i. number_list ! i) (filter (\<lambda>i. P (x ! i)) [0..<length x])"
proof (induction x arbitrary: number_list rule: rev_induct)
  case Nil
  then show ?case by (simp add: masked_def)
next
  case (snoc a xs)
  then obtain ns n where ns: "number_list = ns @ [n]" and len: "length ns = length xs"
    by (cases number_list rule: rev_cases) auto
  let ?Q = "\<lambda>i. P ((xs @ [a]) ! i)"
  have f: "filter ?Q [0..<length xs] = filter (\<lambda>i. P (xs ! i)) [0..<length xs]"
    by (intro filter_cong) (simp_all add: nth_append)
  have m: "map (\<lambda>i. (ns @ [n]) ! i) (filter (\<lambda>i. P (xs ! i)) [0..<length xs])
      = map (\<lambda>i. ns ! i) (filter (\<lambda>i. P (xs ! i)) [0..<length xs])"
    by (intro map_cong) (simp_all add: nth_append len)
  have last: "(ns @ [n]) ! length xs = n"
    by (simp add: nth_append len)
  have "masked (ns @ [n]) (map P (xs @ [a])) = masked ns (map P xs) @ (if P a then [n] else [])"
    by (simp add: masked_snoc len)
  also have "masked ns (map P xs) = map (\<lambda>i. ns ! i) (filter (\<lambda>i. P (xs ! i)) [0..<length xs])"
    by (rule snoc.IH) (simp add: len)
  also have "\<dots> @ (if P a then [n] else [])
      = map (\<lambda>i. (ns @ [n]) ! i) (filter ?Q [0..<length (xs @ [a])])"
    by (simp add: f m last)
  finally show ?case
    by (simp only: ns)
qed

lemma sum_masked:
  "length x = length number_list \<Longrightarrow>
     sum_list (masked number_list (map (\<lambda>xi. xi = b) x)) = subset_sum x number_list b"
  by (simp add: masked_positions subset_sum_def assigned_def)

lemma partition_value_subset_sums:
  "length x = length number_list \<Longrightarrow>
     partition_value x number_list
       = (subset_sum x number_list 0 - subset_sum x number_list 1)\<^sup>2"
  by (simp add: partition_value_def sum_masked power2_eq_square Let_def)

lemma sum_list_map_nth: "sum_list (map g zs) = (\<Sum>i = 0..<length zs. g (zs ! i))"
  by (simp add: sum_list_sum_nth)

lemma sum_all_times_elementwise:
  assumes "length A = n" and "length B = n"
    and "\<And>i. i < n \<Longrightarrow> length (A ! i) = n" and "\<And>i. i < n \<Longrightarrow> length (B ! i) = n"
  shows "sum_all (times_elementwise A B) = (\<Sum>i = 0..<n. \<Sum>j = 0..<n. A ! i ! j * B ! i ! j)"
proof -
  have row: "sum_list (map2 (\<lambda>a b. a * b) (A ! i) (B ! i)) = (\<Sum>j = 0..<n. A ! i ! j * B ! i ! j)"
    if "i < n" for i
  proof -
    have "sum_list (map2 (\<lambda>a b. a * b) (A ! i) (B ! i))
        = (\<Sum>j = 0..<n. map2 (\<lambda>a b. a * b) (A ! i) (B ! i) ! j)"
      using assms(3,4) [OF that] by (simp add: sum_list_sum_nth)
    also have "\<dots> = (\<Sum>j = 0..<n. A ! i ! j * B ! i ! j)"
      using assms(3,4) [OF that] by (intro sum.cong) simp_all
    finally show ?thesis .
  qed
  have "sum_all (times_elementwise A B)
      = (\<Sum>i = 0..<n. sum_list (times_elementwise A B ! i))"
    using assms(1,2) by (simp add: sum_all_def sum_list_map_nth times_elementwise_def)
  also have "\<dots> = (\<Sum>i = 0..<n. sum_list (map2 (\<lambda>a b. a * b) (A ! i) (B ! i)))"
    using assms(1,2) by (intro sum.cong) (simp_all add: times_elementwise_def)
  also have "\<dots> = (\<Sum>i = 0..<n. \<Sum>j = 0..<n. A ! i ! j * B ! i ! j)"
    by (intro sum.cong) (simp_all add: row)
  finally show ?thesis .
qed

lemma square_rows: "square n w \<Longrightarrow> length w = n \<and> (\<forall>i<n. length (w ! i) = n)"
  by (auto simp: square_def list_all_iff)

lemma symmetric_entries: "symmetric n w \<Longrightarrow> i < n \<Longrightarrow> j < n \<Longrightarrow> w ! i ! j = w ! j ! i"
  by (auto simp: symmetric_def list_all_iff)

lemma objective_value_sum:
  assumes "square n w" and "length x = n"
  shows "objective_value x w
    = (\<Sum>i = 0..<n. \<Sum>j = 0..<n. (if w ! i ! j \<noteq> 0 then 1 else 0) * (x ! i * (1 - x ! j)))"
proof -
  let ?X = "outer x (map (\<lambda>xj. 1 - xj) x)"
  let ?W = "map (map (\<lambda>wij. if wij \<noteq> 0 then 1 else (0::int))) w"
  from assms(1) have w: "length w = n" "\<And>i. i < n \<Longrightarrow> length (w ! i) = n"
    using square_rows by blast+
  have "objective_value x w = sum_all (times_elementwise ?W ?X)"
    by (simp add: objective_value_def Let_def)
  also have "\<dots> = (\<Sum>i = 0..<n. \<Sum>j = 0..<n. ?W ! i ! j * ?X ! i ! j)"
    by (rule sum_all_times_elementwise) (simp_all add: w assms(2) outer_def)
  also have "\<dots> = (\<Sum>i = 0..<n. \<Sum>j = 0..<n.
      (if w ! i ! j \<noteq> 0 then 1 else 0) * (x ! i * (1 - x ! j)))"
    by (intro sum.cong refl) (simp add: w assms(2) outer_def)
  finally show ?thesis .
qed

lemma objective_value_complement_symmetric:
  assumes "square n w" and "symmetric n w" and "length a = n"
  shows "objective_value (complement a) w = objective_value a w"
proof -
  let ?e = "\<lambda>i j. if w ! i ! j \<noteq> 0 then 1 else (0::int)"
  have len: "length (complement a) = n" using assms(3) by (simp add: complement_def)
  have "objective_value (complement a) w
      = (\<Sum>i = 0..<n. \<Sum>j = 0..<n. ?e i j * (complement a ! i * (1 - complement a ! j)))"
    using assms(1) len by (rule objective_value_sum)
  also have "\<dots> = (\<Sum>i = 0..<n. \<Sum>j = 0..<n. ?e j i * (a ! j * (1 - a ! i)))"
  proof (intro sum.cong refl)
    fix i j assume "i \<in> {0..<n}" and "j \<in> {0..<n}"
    then have ij: "i < n" "j < n" by simp_all
    then have "?e i j = ?e j i" using symmetric_entries [OF assms(2)] by simp
    moreover have "complement a ! i = 1 - a ! i" "complement a ! j = 1 - a ! j"
      using ij assms(3) by (simp_all add: complement_def)
    ultimately show "?e i j * (complement a ! i * (1 - complement a ! j))
        = ?e j i * (a ! j * (1 - a ! i))"
      by (simp add: mult.commute)
  qed
  also have "\<dots> = (\<Sum>j = 0..<n. \<Sum>i = 0..<n. ?e j i * (a ! j * (1 - a ! i)))"
    by (rule sum.swap)
  also have "\<dots> = objective_value a w"
    using assms(1,3) by (rule objective_value_sum [symmetric])
  finally show ?thesis .
qed

text \<open>
  On a square symmetric matrix and a list of bits, the objective of the library is the
  number of crossing edges: the pairs \<open>i < j\<close> of vertices in different partitions with
  a non-zero weight.
\<close>

lemma length_filter_sum_list:
  "int (length (filter P xs)) = sum_list (map (\<lambda>p. if P p then 1 else 0) xs)"
  by (induction xs) simp_all

lemma sum_list_product:
  "sum_list (map f (List.product xs ys)) = sum_list (map (\<lambda>i. sum_list (map (\<lambda>j. f (i, j)) ys)) xs)"
  by (induction xs) (simp_all add: comp_def)

lemma sum_list_upt: "sum_list (map f [0..<n]) = (\<Sum>i = 0..<n. f i)"
  by (simp add: interv_sum_list_conv_sum_set_nat)

lemma crossing_edges_sum:
  "length x = n \<Longrightarrow>
   crossing_edges x w
     = (\<Sum>i = 0..<n. \<Sum>j = 0..<n. if i < j \<and> x ! i \<noteq> x ! j \<and> w ! i ! j \<noteq> 0 then 1 else 0)"
proof -
  assume n: "length x = n"
  have "crossing_edges x w
      = int (length (filter (\<lambda>(i, j). i < j \<and> x ! i \<noteq> x ! j \<and> w ! i ! j \<noteq> 0)
          (List.product [0..<n] [0..<n])))"
    by (simp add: crossing_edges_def crossing_pairs_def n case_prod_unfold conj_ac)
  also have "\<dots> = sum_list (map (\<lambda>(i, j). if i < j \<and> x ! i \<noteq> x ! j \<and> w ! i ! j \<noteq> 0 then 1 else 0)
      (List.product [0..<n] [0..<n]))"
    by (simp add: length_filter_sum_list case_prod_unfold)
  also have "\<dots> = (\<Sum>i = 0..<n. \<Sum>j = 0..<n.
      if i < j \<and> x ! i \<noteq> x ! j \<and> w ! i ! j \<noteq> 0 then 1 else 0)"
    by (simp add: sum_list_product sum_list_upt)
  finally show ?thesis .
qed

lemma crossing_pair:
  fixes xi xj :: int and i j :: nat
  assumes "xi = 0 \<or> xi = 1" and "xj = 0 \<or> xj = 1" and "wij = wji"
    and "i = j \<Longrightarrow> xi = xj"
  shows "(if wij \<noteq> 0 then 1 else (0::int)) * (xi * (1 - xj))
       + (if wji \<noteq> 0 then 1 else 0) * (xj * (1 - xi))
       = (if i < j \<and> xi \<noteq> xj \<and> wij \<noteq> 0 then 1 else 0)
       + (if j < i \<and> xj \<noteq> xi \<and> wji \<noteq> 0 then 1 else 0)"
proof (cases "wij = 0")
  case True
  then show ?thesis using assms(3) by simp
next
  case False
  then have "wji \<noteq> 0" using assms(3) by simp
  with False show ?thesis using assms(1,2,4) by (cases "i < j"; cases "j < i") auto
qed

lemma double_sum_symmetrised:
  fixes g :: "nat \<Rightarrow> nat \<Rightarrow> int"
  shows "2 * (\<Sum>i = 0..<n. \<Sum>j = 0..<n. g i j) = (\<Sum>i = 0..<n. \<Sum>j = 0..<n. g i j + g j i)"
proof -
  have "(\<Sum>i = 0..<n. \<Sum>j = 0..<n. g j i) = (\<Sum>i = 0..<n. \<Sum>j = 0..<n. g i j)"
    by (rule sum.swap)
  then show ?thesis
    by (simp only: sum.distrib mult_2)
qed

lemma objective_value_crossing_edges:
  assumes "square n w" and "symmetric n w" and "length x = n" and "is_bits x"
  shows "objective_value x w = crossing_edges x w"
proof -
  let ?g = "\<lambda>i j. (if w ! i ! j \<noteq> 0 then 1 else (0::int)) * (x ! i * (1 - x ! j))"
  let ?c = "\<lambda>i j. if i < j \<and> x ! i \<noteq> x ! j \<and> w ! i ! j \<noteq> 0 then 1 else (0::int)"
  have bit: "x ! i = 0 \<or> x ! i = 1" if "i < n" for i
    using assms(3,4) that by (auto simp: is_bits_def list_all_length)
  have pair: "?g i j + ?g j i = ?c i j + ?c j i" if "i < n" and "j < n" for i j
    using bit [OF that(1)] bit [OF that(2)] symmetric_entries [OF assms(2) that]
    by (rule crossing_pair) simp
  have G: "objective_value x w = (\<Sum>i = 0..<n. \<Sum>j = 0..<n. ?g i j)"
    using assms(1,3) by (rule objective_value_sum)
  have C: "crossing_edges x w = (\<Sum>i = 0..<n. \<Sum>j = 0..<n. ?c i j)"
    using assms(3) by (rule crossing_edges_sum)
  have "2 * (\<Sum>i = 0..<n. \<Sum>j = 0..<n. ?g i j) = (\<Sum>i = 0..<n. \<Sum>j = 0..<n. ?g i j + ?g j i)"
    by (rule double_sum_symmetrised)
  also have "\<dots> = (\<Sum>i = 0..<n. \<Sum>j = 0..<n. ?c i j + ?c j i)"
  proof (intro sum.cong refl)
    fix i j assume "i \<in> {0..<n}" and "j \<in> {0..<n}"
    then have "i < n" and "j < n" by simp_all
    then show "?g i j + ?g j i = ?c i j + ?c j i" by (rule pair)
  qed
  also have "\<dots> = 2 * (\<Sum>i = 0..<n. \<Sum>j = 0..<n. ?c i j)"
    by (rule double_sum_symmetrised [symmetric])
  finally have "(\<Sum>i = 0..<n. \<Sum>j = 0..<n. ?g i j) = (\<Sum>i = 0..<n. \<Sum>j = 0..<n. ?c i j)"
    by linarith
  then show ?thesis by (simp only: G C)
qed

text \<open>
  The crossing pairs of an assignment and of its complement are the same, so the number
  of the crossing edges and the sum of their weights are invariant too, on any matrix.
\<close>

lemma crossing_pairs_complement: "crossing_pairs (complement x) = crossing_pairs x"
proof -
  have "(complement x ! i \<noteq> complement x ! j) = (x ! i \<noteq> x ! j)"
    if "i < length x" and "j < length x" for i j
    using that by (simp add: complement_def)
  then have "filter (\<lambda>(i, j). i < j \<and> complement x ! i \<noteq> complement x ! j)
        (List.product [0..<length x] [0..<length x])
      = filter (\<lambda>(i, j). i < j \<and> x ! i \<noteq> x ! j)
        (List.product [0..<length x] [0..<length x])"
    by (intro filter_cong refl) auto
  moreover have "length (complement x) = length x"
    by (simp add: complement_def)
  ultimately show ?thesis
    by (simp only: crossing_pairs_def)
qed

lemma crossing_weight_complement:
  "crossing_weight (complement x) w = crossing_weight x w"
  "crossing_edges (complement x) w = crossing_edges x w"
  by (simp_all only: crossing_weight_def crossing_edges_def crossing_pairs_complement)

section \<open>What the Exact Solver returns\<close>

lemma track_None: "track f a None = Some (f a, a)"
  by (simp add: track_def)

lemma track_Some:
  "track f a (Some (v, b)) = (if f a < v then Some (f a, a) else Some (v, b))"
  by (simp add: track_def)

lemma fold_track_Some:
  "fold (track f) xs (Some (v, b)) = Some (v', b') \<Longrightarrow>
     v' \<le> v \<and> (\<forall>a \<in> set xs. v' \<le> f a) \<and> (v' = f b' \<and> b' \<in> set xs \<or> (v', b') = (v, b))"
proof (induction xs arbitrary: v b)
  case Nil
  then show ?case by simp
next
  case (Cons x xs)
  show ?case
  proof (cases "f x < v")
    case True
    then have "fold (track f) xs (Some (f x, x)) = Some (v', b')"
      using Cons.prems by (simp add: track_Some)
    from Cons.IH [OF this] True show ?thesis by auto
  next
    case False
    then have "fold (track f) xs (Some (v, b)) = Some (v', b')"
      using Cons.prems by (simp add: track_Some)
    from Cons.IH [OF this] False show ?thesis by auto
  qed
qed

lemma exact_solver_minimum:
  assumes "exact_solver objective n balance = Some (v, a)"
  shows "a \<in> set (remaining n balance) \<and> v = objective a
    \<and> (\<forall>b \<in> set (remaining n balance). v \<le> objective b)"
proof (cases "remaining n balance")
  case Nil
  then show ?thesis using assms by (simp add: exact_solver_def)
next
  case (Cons x xs)
  then have "fold (track objective) xs (Some (objective x, x)) = Some (v, a)"
    using assms by (simp add: exact_solver_def track_None)
  from fold_track_Some [OF this] Cons show ?thesis by auto
qed

lemma remaining_all: "set (remaining n False) = {a. length a = n \<and> is_bits a}"
  by (simp add: remaining_def set_binary_strings)

text \<open>
  With the balance constraint and for a size \<open>n \<ge> 1\<close>, the value the Exact Solver
  returns is the one \<^verbatim>\<open>brute_force\<close> returns.
\<close>

lemma tracked_fold_track:
  "(case fold (track f) xs None of None \<Rightarrow> Infinity | Some (v, a) \<Rightarrow> Value v)
     = least_value (map f xs)"
proof (induction xs rule: rev_induct)
  case Nil
  show ?case by (simp add: least_value_def)
next
  case (snoc x xs)
  show ?case
  proof (cases "fold (track f) xs None")
    case None
    with snoc have "least_value (map f xs) = Infinity" by simp
    with None show ?thesis by (simp add: least_value_snoc track_None)
  next
    case (Some p)
    obtain v a where p: "p = (v, a)" by (cases p)
    with Some snoc have "least_value (map f xs) = Value v" by simp
    with Some p show ?thesis by (simp add: least_value_snoc track_Some)
  qed
qed

lemma exact_solver_brute_force:
  assumes "0 < n"
  shows "(case exact_solver (\<lambda>a. objective a w) n True of
            None \<Rightarrow> Infinity | Some (v, a) \<Rightarrow> Value v)
         = brute_force objective n w"
proof -
  have "remaining n True = filter (\<lambda>a. 2 * count_ones a = n) (candidates n)"
    using assms by (simp add: remaining_def candidates_binary_strings)
  then have "remaining n True = evaluated (brute_force_run objective n w)"
    by (simp add: evaluated_brute_force_run filter_balanced_candidates)
  then show ?thesis
    by (simp add: exact_solver_def tracked_fold_track brute_force_least_value)
qed

section \<open>The claims about the objectives\<close>

text \<open>
  C2. On the weight matrix the notebook prints, \<^verbatim>\<open>brute_force\<close> with the objective of
  the library returns 3; the assignment \<open>[0, 1, 0, 1]\<close> is balanced, is among the
  candidates evaluated, and has the objective value 3.
\<close>

theorem brute_force_example:
  "brute_force objective_value 4 w_example = Value 3
   \<and> objective_value [0, 1, 0, 1] w_example = 3
   \<and> balanced 4 [0, 1, 0, 1]
   \<and> [0, 1, 0, 1] \<in> set (evaluated (brute_force_run objective_value 4 w_example))"
proof -
  have "brute_force objective_value 4 w_example = Value 3" by code_simp
  moreover have "objective_value [0, 1, 0, 1] w_example = 3" by code_simp
  moreover have "balanced 4 [0, 1, 0, 1]" by code_simp
  moreover have "evaluated (brute_force_run objective_value 4 w_example)
      = [[0, 0, 1, 1], [0, 1, 0, 1], [0, 1, 1, 0], [1, 0, 0, 1], [1, 0, 1, 0], [1, 1, 0, 0]]"
    by code_simp
  ultimately show ?thesis by simp
qed

text \<open>
  The objective as the sum of the weights of the crossing edges (section 4.1 of the
  specification) has the value 2 at \<open>[0, 1, 0, 1]\<close>, and 2 would be the minimum; counting
  the crossing edges gives the 3 the notebook prints.
\<close>

lemma crossing_weight_example:
  "crossing_weight [0, 1, 0, 1] w_example = 2
   \<and> brute_force crossing_weight 4 w_example = Value 2
   \<and> crossing_edges [0, 1, 0, 1] w_example = 3
   \<and> brute_force crossing_edges 4 w_example = Value 3"
proof -
  have "crossing_weight [0, 1, 0, 1] w_example = 2" by code_simp
  moreover have "brute_force crossing_weight 4 w_example = Value 2" by code_simp
  moreover have "crossing_edges [0, 1, 0, 1] w_example = 3" by code_simp
  moreover have "brute_force crossing_edges 4 w_example = Value 3" by code_simp
  ultimately show ?thesis by simp
qed

text \<open>
  C3. The number-partition objective of an assignment and of its complement are equal,
  for every assignment and every number list: the complement exchanges the two sums, and
  the difference is squared.
\<close>

theorem partition_value_complement:
  "partition_value (complement a) number_list = partition_value a number_list"
proof -
  define s0 where "s0 = sum_list (masked number_list (map (\<lambda>xi. xi = 0) a))"
  define s1 where "s1 = sum_list (masked number_list (map (\<lambda>xi. xi = 1) a))"
  have "partition_value (complement a) number_list = (s1 - s0) * (s1 - s0)"
    by (simp add: partition_value_def masked_complement s0_def s1_def Let_def)
  moreover have "partition_value a number_list = (s0 - s1) * (s0 - s1)"
    by (simp add: partition_value_def s0_def s1_def Let_def)
  moreover have "(s1 - s0) * (s1 - s0) = (s0 - s1) * (s0 - s1)"
    by (simp add: algebra_simps)
  ultimately show ?thesis by simp
qed

text \<open>
  C8. For an assignment with one entry per number, the number-partition objective is the
  square of the difference between the sum of the numbers at the positions with bit 0 and
  the sum of the numbers at the positions with bit 1. It is not the absolute difference:
  for the numbers 5 and 2 in different subsets it is 9, and the absolute difference is 3.
\<close>

theorem partition_value_squared_difference:
  assumes "length x = length number_list"
  shows "partition_value x number_list
           = (subset_sum x number_list 0 - subset_sum x number_list 1)\<^sup>2
    \<and> partition_value [0, 1] [5, 2 :: int] = 9
    \<and> \<bar>subset_sum [0, 1] [5, 2 :: int] 0 - subset_sum [0, 1] [5, 2 :: int] 1\<bar> = 3"
proof -
  have "partition_value [0, 1] [5, 2 :: int] = 9"
    by (simp add: partition_value_def masked_def)
  moreover have "\<bar>subset_sum [0, 1] [5, 2 :: int] 0 - subset_sum [0, 1] [5, 2 :: int] 1\<bar> = 3"
    by (simp add: subset_sum_def assigned_def)
  ultimately show ?thesis
    using assms by (simp add: partition_value_subset_sums)
qed

theorem partition_value_squared_difference_witness:
  "length [1, 1, 0, 1, 1 :: int] = length [9, 8, 23, 4, 2 :: int]
   \<and> subset_sum [1, 1, 0, 1, 1] [9, 8, 23, 4, 2 :: int] 0 = 23
   \<and> subset_sum [1, 1, 0, 1, 1] [9, 8, 23, 4, 2 :: int] 1 = 23
   \<and> partition_value [1, 1, 0, 1, 1] [9, 8, 23, 4, 2 :: int] = 0"
proof -
  have l: "length [1, 1, 0, 1, 1 :: int] = length [9, 8, 23, 4, 2 :: int]" by simp
  have s0: "subset_sum [1, 1, 0, 1, 1] [9, 8, 23, 4, 2 :: int] 0 = 23" by code_simp
  have s1: "subset_sum [1, 1, 0, 1, 1] [9, 8, 23, 4, 2 :: int] 1 = 23" by code_simp
  show ?thesis
    using partition_value_squared_difference [OF l] l
    by (simp only: s0 s1) simp
qed

text \<open>
  C4. For a square symmetric weight matrix of size \<open>n\<close> and a balanced assignment (a
  list of \<open>n\<close> bits, \<open>n/2\<close> of them ones), the graph-partition objective of the
  assignment and of its complement are equal. The proof uses the size and the symmetry
  only (\<open>objective_value_complement_symmetric\<close>).
\<close>

theorem objective_value_complement:
  assumes "square n w" and "symmetric n w"
    and "length a = n" and "is_bits a" and "2 * count_ones a = n"
  shows "objective_value (complement a) w = objective_value a w"
  using assms(1,2,3) by (rule objective_value_complement_symmetric)

theorem objective_value_complement_witness:
  "square 4 w_example \<and> symmetric 4 w_example
   \<and> length [0, 1, 0, 1 :: int] = 4 \<and> is_bits [0, 1, 0, 1] \<and> 2 * count_ones [0, 1, 0, 1] = 4
   \<and> complement [0, 1, 0, 1] = [1, 0, 1, 0]
   \<and> objective_value [1, 0, 1, 0] w_example = 3
   \<and> objective_value [0, 1, 0, 1] w_example = 3"
proof -
  have sq: "square 4 w_example" by code_simp
  have sy: "symmetric 4 w_example" by code_simp
  have l: "length [0, 1, 0, 1 :: int] = 4" by simp
  have b: "is_bits [0, 1, 0, 1]" by (simp add: is_bits_def)
  have c: "2 * count_ones [0, 1, 0, 1] = 4" by (simp add: count_ones_def)
  have cm: "complement [0, 1, 0, 1] = [1, 0, 1, 0]" by (simp add: complement_def)
  have v: "objective_value [0, 1, 0, 1] w_example = 3" by code_simp
  show ?thesis
    using objective_value_complement [OF sq sy l b c] sq sy l b c cm v
    by simp
qed

text \<open>
  C6. On the number list \<open>[1, 3, 4, 7, 10, 13, 15, 16]\<close> the Exact Solver without the
  balance constraint returns the objective value 1 with the first assignment that reaches
  it, whose subsets sum to 34 and 35. No assignment of the \<open>2^8\<close> does better: for every
  list of 8 bits the objective is at least 1 and the two subset sums differ by at least
  1, so there is no perfect split and 1 is the least difference.
\<close>

theorem exact_solver_sample_partition:
  "exact_solver (\<lambda>a. partition_value a sample_partition) 8 False
     = Some (1, [0, 0, 0, 1, 0, 1, 1, 0])
   \<and> subset_sum [0, 0, 0, 1, 0, 1, 1, 0] sample_partition 0 = 34
   \<and> subset_sum [0, 0, 0, 1, 0, 1, 1, 0] sample_partition 1 = 35
   \<and> (\<forall>a. length a = 8 \<and> is_bits a \<longrightarrow>
         1 \<le> partition_value a sample_partition
         \<and> 1 \<le> \<bar>subset_sum a sample_partition 0 - subset_sum a sample_partition 1\<bar>)"
proof -
  have r: "exact_solver (\<lambda>a. partition_value a sample_partition) 8 False
      = Some (1, [0, 0, 0, 1, 0, 1, 1, 0])"
    by code_simp
  have s0: "subset_sum [0, 0, 0, 1, 0, 1, 1, 0] sample_partition 0 = 34" by code_simp
  have s1: "subset_sum [0, 0, 0, 1, 0, 1, 1, 0] sample_partition 1 = 35" by code_simp
  have least: "1 \<le> partition_value a sample_partition
      \<and> 1 \<le> \<bar>subset_sum a sample_partition 0 - subset_sum a sample_partition 1\<bar>"
    if a: "length a = 8 \<and> is_bits a" for a
  proof -
    from a have "a \<in> set (remaining 8 False)" by (simp add: remaining_all)
    with exact_solver_minimum [OF r] have v: "1 \<le> partition_value a sample_partition"
      by blast
    define d where "d = subset_sum a sample_partition 0 - subset_sum a sample_partition 1"
    have "length a = length sample_partition" using a by (simp add: sample_partition_def)
    then have "partition_value a sample_partition = d\<^sup>2"
      by (simp add: partition_value_subset_sums d_def)
    with v have "d \<noteq> 0" by auto
    then have "1 \<le> \<bar>d\<bar>" by simp
    with v show ?thesis by (simp add: d_def)
  qed
  from r s0 s1 least show ?thesis by blast
qed

theorem exact_solver_sample_partition_witness:
  "length [1, 1, 1, 0, 1, 0, 0, 1 :: int] = 8 \<and> is_bits [1, 1, 1, 0, 1, 0, 0, 1]
   \<and> partition_value [1, 1, 1, 0, 1, 0, 0, 1] sample_partition = 1
   \<and> 1 \<le> \<bar>subset_sum [1, 1, 1, 0, 1, 0, 0, 1] sample_partition 0
          - subset_sum [1, 1, 1, 0, 1, 0, 0, 1] sample_partition 1\<bar>"
proof -
  have h: "length [1, 1, 1, 0, 1, 0, 0, 1 :: int] = 8 \<and> is_bits [1, 1, 1, 0, 1, 0, 0, 1]"
    by (simp add: is_bits_def)
  have v: "partition_value [1, 1, 1, 0, 1, 0, 0, 1] sample_partition = 1" by code_simp
  show ?thesis
    using exact_solver_sample_partition h v by blast
qed

section \<open>The claim about the optional solver\<close>

lemma cell_6_caught:
  assumes "try_ClassicalCPLEX lib qubitOp offset number_list = Inl (Exception msg)"
  shows "cell_6 lib qubitOp offset number_list = Inr [[Str msg]]"
  using assms by (simp add: cell_6_def)

lemma try_ClassicalCPLEX_unavailable:
  assumes "import_ClassicalCPLEX lib = Inl (Exception msg)
    \<or> (import_ClassicalCPLEX lib = Inr () \<and> ClassicalCPLEX_run lib qubitOp = Inl (Exception msg))"
  shows "try_ClassicalCPLEX lib qubitOp offset number_list = Inl (Exception msg)"
  using assms by (auto simp: try_ClassicalCPLEX_def)

text \<open>
  C7. When CPLEX is not installed, so that the import of \<^verbatim>\<open>ClassicalCPLEX\<close> or the
  call of the solver raises an exception of class \<^verbatim>\<open>Exception\<close>, the cell catches it:
  it prints the message and ends normally. The run goes on to the VQE cell, and when the
  two other solvers return, the output holds their lines around the message and the run
  ends with no exception.
\<close>

theorem unavailable_solver_skipped:
  assumes "import_ClassicalCPLEX lib = Inl (Exception msg)
    \<or> (import_ClassicalCPLEX lib = Inr () \<and> ClassicalCPLEX_run lib qubitOp = Inl (Exception msg))"
  shows "cell_6 lib qubitOp offset number_list = Inr [[Str msg]]
    \<and> solver_cells lib qubitOp offset number_list
        = run_cells [cell_5 lib qubitOp offset number_list, Inr [[Str msg]],
                     cell_7 lib qubitOp offset number_list]
    \<and> (\<forall>out5 out7.
          cell_5 lib qubitOp offset number_list = Inr out5
          \<and> cell_7 lib qubitOp offset number_list = Inr out7
          \<longrightarrow> solver_cells lib qubitOp offset number_list = (out5 @ [[Str msg]] @ out7, None))"
proof -
  have c6: "cell_6 lib qubitOp offset number_list = Inr [[Str msg]]"
    using assms by (intro cell_6_caught try_ClassicalCPLEX_unavailable)
  then have run: "solver_cells lib qubitOp offset number_list
      = run_cells [cell_5 lib qubitOp offset number_list, Inr [[Str msg]],
                   cell_7 lib qubitOp offset number_list]"
    by (simp add: solver_cells_def)
  then have "solver_cells lib qubitOp offset number_list = (out5 @ [[Str msg]] @ out7, None)"
    if "cell_5 lib qubitOp offset number_list = Inr out5"
      and "cell_7 lib qubitOp offset number_list = Inr out7" for out5 out7
    using that by simp
  with c6 run show ?thesis by blast
qed

theorem unavailable_solver_skipped_witness:
  "import_ClassicalCPLEX library_without_CPLEX = Inl (Exception ''No module named cplex'')
   \<and> cell_6 library_without_CPLEX () 694 [9, 8, 23, 4, 2] = Inr [[Str ''No module named cplex'']]
   \<and> solver_cells library_without_CPLEX () 694 [9, 8, 23, 4, 2]
      = ([[Str ''energy:'', Float (- 694)],
          [Str ''partition objective:'', Float 0],
          [Str ''solution:'', Array [1, 1, 0, 1, 1]],
          [Str ''solution objective:'', Integer 0],
          [Str ''No module named cplex''],
          [Str ''energy:'', Float (- 694)],
          [Str ''time:'', Float 38],
          [Str ''partition objective:'', Float 0],
          [Str ''solution:'', Array [0, 0, 1, 0, 0]],
          [Str ''solution objective:'', Integer 0]], None)"
proof -
  have i: "import_ClassicalCPLEX library_without_CPLEX = Inl (Exception ''No module named cplex'')"
    by (simp add: library_without_CPLEX_def)
  have p1: "partition_value [1, 1, 0, 1, 1] [9, 8, 23, 4, 2 :: int] = 0"
    by (simp add: partition_value_def masked_def)
  have p2: "partition_value [0, 0, 1, 0, 0] [9, 8, 23, 4, 2 :: int] = 0"
    by (simp add: partition_value_def masked_def)
  have c5: "cell_5 library_without_CPLEX () 694 [9, 8, 23, 4, 2]
      = Inr [[Str ''energy:'', Float (- 694)],
          [Str ''partition objective:'', Float 0],
          [Str ''solution:'', Array [1, 1, 0, 1, 1]],
          [Str ''solution objective:'', Integer 0]]"
    by (simp add: cell_5_def library_without_CPLEX_def p1)
  have c7: "cell_7 library_without_CPLEX () 694 [9, 8, 23, 4, 2]
      = Inr [[Str ''energy:'', Float (- 694)],
          [Str ''time:'', Float 38],
          [Str ''partition objective:'', Float 0],
          [Str ''solution:'', Array [0, 0, 1, 0, 0]],
          [Str ''solution objective:'', Integer 0]]"
    by (simp add: cell_7_def library_without_CPLEX_def p2)
  show ?thesis
    using unavailable_solver_skipped [of library_without_CPLEX "''No module named cplex''" "()" 694 "[9, 8, 23, 4, 2]"]
      i c5 c7
    by simp
qed

text \<open>
  What the handler does not catch ends the run before the VQE cell: the theorem above is
  about the \<^verbatim>\<open>try\<close> statement, not about the way the cells are run.
\<close>

lemma uncaught_ends_run:
  assumes "import_ClassicalCPLEX lib = Inl (BaseException msg)"
    and "cell_5 lib qubitOp offset number_list = Inr out5"
  shows "solver_cells lib qubitOp offset number_list = (out5, Some (BaseException msg))"
  using assms by (simp add: solver_cells_def cell_6_def try_ClassicalCPLEX_def)

end
